theory Spec2Isabelle
  imports Main "HOL-Library.AList" "HOL-Library.Sublist"
begin

section \<open>Data model\<close>

text \<open>
  The program (\<^verbatim>\<open>src/index.js\<close>, and its parameterised twin \<^verbatim>\<open>src/unnamed/part_000\<close>,
  whose \<^verbatim>\<open>getRawMigrations\<close>, \<^verbatim>\<open>getModelColumns\<close> and \<^verbatim>\<open>formatMigrationContent\<close> have the
  same bodies) works on plain JSON objects. A JavaScript object is modelled as an association
  list in own-property order: \<^verbatim>\<open>o[k] = v\<close> updates the entry in place when \<^verbatim>\<open>k\<close> is an own key
  and appends it otherwise, \<^verbatim>\<open>delete o[k]\<close> drops the entry, a write to a property of the
  object stored under \<^verbatim>\<open>k\<close> modifies that entry where it is, \<^verbatim>\<open>Object.entries(o)\<close> is the list
  itself. The keys of an object are pairwise distinct. Table and column names are taken to be
  ordinary property names: neither array-index strings (which JavaScript enumerates first) nor
  names inherited from \<^verbatim>\<open>Object.prototype\<close> (which a property read would find on an empty
  object).
\<close>

type_synonym 'a obj = "(string \<times> 'a) list"

definition obj_get :: "'a obj \<Rightarrow> string \<Rightarrow> 'a option" where
  "obj_get ob k = map_of ob k"

definition obj_set :: "string \<Rightarrow> 'a \<Rightarrow> 'a obj \<Rightarrow> 'a obj" where
  "obj_set k v ob = AList.update k v ob"

definition obj_delete :: "string \<Rightarrow> 'a obj \<Rightarrow> 'a obj" where
  "obj_delete k ob = AList.delete k ob"

definition obj_modify :: "string \<Rightarrow> ('a \<Rightarrow> 'a) \<Rightarrow> 'a obj \<Rightarrow> 'a obj" where
  "obj_modify k f ob = AList.map_entry k f ob"

definition obj_keys :: "'a obj \<Rightarrow> string list" where
  "obj_keys ob = map fst ob"

text \<open>
  A scalar JSON value, as a \<^verbatim>\<open>defaultValue\<close> holds after the round trip through
  \<^verbatim>\<open>JSON.stringify\<close> and \<^verbatim>\<open>JSON.parse\<close>.
\<close>

datatype jval = JNull | JBool bool | JNum int | JStr string

text \<open>
  A declared attribute, as \<^verbatim>\<open>model.getAttributes()\<close> gives it. \<open>type\<close> is
  \<^verbatim>\<open>type.constructor.name\<close>; an absent (\<^verbatim>\<open>undefined\<close>) option is \<open>None\<close>.
\<close>

record attribute =
  type :: string
  field :: string
  allowNull :: "bool option"
  unique :: "bool option"
  primaryKey :: "bool option"
  prevColumnName :: "string option"
  defaultValue :: "jval option"

text \<open>
  A column definition of the snapshot (\<^verbatim>\<open>meta.json\<close>) and of the extracted model columns: a
  JSON object with the keys below, an absent key being \<open>None\<close>.
\<close>

record column =
  type :: string
  allowNull :: "bool option"
  autoIncrement :: "bool option"
  primaryKey :: "bool option"
  unique :: "bool option"
  prevColumnName :: "string option"
  defaultValue :: "jval option"

record options =
  tableName :: string
  autoMigrations :: bool
  timestamps :: bool
  paranoid :: bool

record model =
  attributes :: "attribute obj"
  options :: options

text \<open>
  A schema-mutation call of a generated migration. The column-definition argument is what
  \<^verbatim>\<open>JSON.stringify\<close> is applied to: \<open>None\<close> when the looked-up value is \<^verbatim>\<open>undefined\<close>.
\<close>

datatype operation =
  createTable string "column obj"
| dropTable string
| addColumn string string "column option"
| removeColumn string string
| changeColumn string string "column option"
| renameColumn string string string "column option"

text \<open>
  A raw migration: its label and the calls that the template places in \<^verbatim>\<open>up\<close> and in
  \<^verbatim>\<open>down\<close>, in order.
\<close>

record migration =
  label :: string
  up :: "operation list"
  down :: "operation list"

text \<open>The classification buckets \<^verbatim>\<open>columns\<close> of \<^verbatim>\<open>getRawMigrations\<close>.\<close>

record columns =
  new :: "column obj"
  change :: "column obj"
  rename :: "column obj"
  remove :: "string list"

datatype error = NoChange


section \<open>JavaScript primitives the diff relies on\<close>

text \<open>
  A property value that is a string or \<^verbatim>\<open>undefined\<close>: its truthiness (the empty string is
  falsy), and its conversion to a property key or into a template string
  (\<^verbatim>\<open>undefined\<close> becomes the text \<^verbatim>\<open>undefined\<close>).
\<close>

definition truthy :: "string option \<Rightarrow> bool" where
  "truthy x = (case x of None \<Rightarrow> False | Some s \<Rightarrow> s \<noteq> [])"

definition js_key :: "string option \<Rightarrow> string" where
  "js_key x = (case x of None \<Rightarrow> ''undefined'' | Some s \<Rightarrow> s)"

text \<open>
  During the diff an object of the snapshot may carry the transient property
  \<^verbatim>\<open>nextColumnName\<close>; an entry is the column definition together with that property. The
  objects of \<^verbatim>\<open>modelColumns\<close> never receive it.
\<close>

type_synonym entry = "column \<times> string option"

subsection \<open>Loose equality\<close>

text \<open>
  The white space of the language (\<^verbatim>\<open>\s\<close> of a regular expression, and what the conversion
  of a string to a number strips), on the code units below 256.
\<close>

definition is_space :: "char \<Rightarrow> bool" where
  "is_space c = (c \<in> set [CHR 0x09, CHR 0x0A, CHR 0x0B, CHR 0x0C, CHR 0x0D, CHR 0x20, CHR 0xA0])"

text \<open>
  The conversion of a string to a number, as \<^verbatim>\<open>==\<close> applies it: white space is stripped at
  both ends; the empty string is 0; a literal with the prefix \<^verbatim>\<open>0x\<close>, \<^verbatim>\<open>0o\<close> or \<^verbatim>\<open>0b\<close> is an
  integer in that radix; otherwise an optional sign, digits with an optional fraction, and
  an optional exponent. The value is the pair \<open>(m, e)\<close> for \<open>m\<close> times ten to the power \<open>e\<close>;
  \<open>None\<close> stands for \<^verbatim>\<open>NaN\<close> and for the infinities, which equal no JSON number. The value
  is taken exactly: a literal whose value no double holds is outside the model.
\<close>

definition digit_of :: "char \<Rightarrow> int option" where
  "digit_of c =
     (let n = of_char c :: nat
      in if 48 \<le> n \<and> n \<le> 57 then Some (int n - 48)
         else if 97 \<le> n \<and> n \<le> 102 then Some (int n - 87)
         else if 65 \<le> n \<and> n \<le> 70 then Some (int n - 55)
         else None)"

definition is_digit :: "char \<Rightarrow> bool" where
  "is_digit c = (48 \<le> (of_char c :: nat) \<and> (of_char c :: nat) \<le> 57)"

definition digits :: "int \<Rightarrow> string \<Rightarrow> int option" where
  "digits radix ds =
     (if ds \<noteq> [] \<and> list_all (\<lambda>c. case digit_of c of Some d \<Rightarrow> d < radix | None \<Rightarrow> False) ds
      then Some (foldl (\<lambda>acc c. acc * radix + (case digit_of c of Some d \<Rightarrow> d | None \<Rightarrow> 0)) 0 ds)
      else None)"

definition non_decimal_literal :: "string \<Rightarrow> int option" where
  "non_decimal_literal s =
     (case s of
        z # x # ds \<Rightarrow>
          if z \<noteq> CHR ''0'' then None
          else if x = CHR ''x'' \<or> x = CHR ''X'' then digits 16 ds
          else if x = CHR ''o'' \<or> x = CHR ''O'' then digits 8 ds
          else if x = CHR ''b'' \<or> x = CHR ''B'' then digits 2 ds
          else None
      | _ \<Rightarrow> None)"

definition exponent_part :: "string \<Rightarrow> int option" where
  "exponent_part r =
     (case r of
        [] \<Rightarrow> Some 0
      | c # ds \<Rightarrow>
          if c = CHR ''e'' \<or> c = CHR ''E''
          then (case ds of
                  [] \<Rightarrow> None
                | d # ds' \<Rightarrow>
                    if d = CHR ''+'' then digits 10 ds'
                    else if d = CHR ''-'' then map_option uminus (digits 10 ds')
                    else digits 10 ds)
          else None)"

definition unsigned_decimal_literal :: "string \<Rightarrow> (int \<times> int) option" where
  "unsigned_decimal_literal s =
     (let ip = takeWhile is_digit s;
          r1 = dropWhile is_digit s;
          dot = (r1 \<noteq> [] \<and> hd r1 = CHR ''.'');
          fp = (if dot then takeWhile is_digit (tl r1) else []);
          r2 = (if dot then dropWhile is_digit (tl r1) else r1)
      in (case digits 10 (ip @ fp) of
            None \<Rightarrow> None
          | Some m \<Rightarrow>
              (case exponent_part r2 of
                 None \<Rightarrow> None
               | Some e \<Rightarrow> Some (m, e - int (length fp)))))"

definition string_to_number :: "string \<Rightarrow> (int \<times> int) option" where
  "string_to_number s =
     (let t = rev (dropWhile is_space (rev (dropWhile is_space s)))
      in if t = [] then Some (0, 0)
         else (case non_decimal_literal t of
                 Some n \<Rightarrow> Some (n, 0)
               | None \<Rightarrow>
                   (case t of
                      c # u \<Rightarrow>
                        if c = CHR ''+'' then unsigned_decimal_literal u
                        else if c = CHR ''-''
                        then map_option (\<lambda>(m, e). (- m, e)) (unsigned_decimal_literal u)
                        else unsigned_decimal_literal t
                    | [] \<Rightarrow> None)))"

definition number_is :: "(int \<times> int) option \<Rightarrow> int \<Rightarrow> bool" where
  "number_is x n =
     (case x of
        None \<Rightarrow> False
      | Some (m, e) \<Rightarrow> if 0 \<le> e then m * 10 ^ nat e = n else m = n * 10 ^ nat (- e))"

text \<open>
  \<^verbatim>\<open>==\<close> on two JSON scalars: values of one type are compared as they are, \<^verbatim>\<open>null\<close> equals
  only \<^verbatim>\<open>null\<close>, a boolean counts as the number 1 or 0, and a string against a number or a
  boolean is converted to a number. \<open>JNum n\<close> is the number \<open>n\<close>, an integer that a double
  holds exactly.
\<close>

fun loose_eq :: "jval \<Rightarrow> jval \<Rightarrow> bool" where
  "loose_eq JNull JNull = True"
| "loose_eq (JBool a) (JBool b) = (a = b)"
| "loose_eq (JNum a) (JNum b) = (a = b)"
| "loose_eq (JStr a) (JStr b) = (a = b)"
| "loose_eq (JBool a) (JNum n) = ((if a then 1 else 0) = n)"
| "loose_eq (JNum n) (JBool a) = (n = (if a then 1 else 0))"
| "loose_eq (JNum n) (JStr s) = number_is (string_to_number s) n"
| "loose_eq (JStr s) (JNum n) = number_is (string_to_number s) n"
| "loose_eq (JBool a) (JStr s) = number_is (string_to_number s) (if a then 1 else 0)"
| "loose_eq (JStr s) (JBool a) = number_is (string_to_number s) (if a then 1 else 0)"
| "loose_eq _ _ = False"

text \<open>
  \<^verbatim>\<open>equal\<close> of the \<^verbatim>\<open>deep-equal\<close> package, called without the \<^verbatim>\<open>strict\<close> option: two objects
  are equal when they have the same number of keys, the same keys, and equal values under
  each key, and two values that are no objects are equal when \<^verbatim>\<open>==\<close> holds. On two column
  objects: each key is present in both or in neither; the strings and the booleans are
  compared as they are (\<^verbatim>\<open>==\<close> on two strings or on two booleans is identity), the default
  values by \<^verbatim>\<open>==\<close>. An object of the snapshot that carries \<^verbatim>\<open>nextColumnName\<close> has a key that
  no object of \<^verbatim>\<open>modelColumns\<close> has.
\<close>

definition equal_column :: "column \<Rightarrow> column \<Rightarrow> bool" where
  "equal_column a b =
     (column.type a = column.type b
      \<and> column.allowNull a = column.allowNull b
      \<and> autoIncrement a = autoIncrement b
      \<and> column.primaryKey a = column.primaryKey b
      \<and> column.unique a = column.unique b
      \<and> column.prevColumnName a = column.prevColumnName b
      \<and> (case (column.defaultValue a, column.defaultValue b) of
            (None, None) \<Rightarrow> True
          | (Some x, Some y) \<Rightarrow> loose_eq x y
          | _ \<Rightarrow> False))"

definition equal_entry :: "entry \<Rightarrow> column \<Rightarrow> bool" where
  "equal_entry e c = (snd e = None \<and> equal_column (fst e) c)"

definition equal :: "column obj \<Rightarrow> column obj \<Rightarrow> bool" where
  "equal a b =
     (length a = length b
      \<and> list_all (\<lambda>(k, v). case obj_get b k of Some w \<Rightarrow> equal_column v w | None \<Rightarrow> False) a)"

section \<open>The diff engine: \<^verbatim>\<open>getRawMigrations\<close>\<close>

text \<open>
  One iteration of the loop over \<^verbatim>\<open>Object.entries(modelColumns)\<close> (lines 90 to 124). The
  state is \<^verbatim>\<open>metaDataByTableName\<close> and the buckets \<^verbatim>\<open>columns\<close>. The closing
  \<^verbatim>\<open>currentColumnOptions.nextColumnName = modelColumnName\<close> marks the object read at the top of
  the iteration; that object is still in the table only when the column was found unchanged.
\<close>

definition forward :: "string \<times> column \<Rightarrow> entry obj \<times> columns \<Rightarrow> entry obj \<times> columns" where
  "forward nc s =
     (case nc of (modelColumnName, modelColumnOptions) \<Rightarrow>
      case s of (metaDataByTableName, cols) \<Rightarrow>
      (case obj_get metaDataByTableName modelColumnName of
         Some currentColumnOptions \<Rightarrow>
           if \<not> equal_entry currentColumnOptions modelColumnOptions
           then (obj_set modelColumnName (modelColumnOptions, None) metaDataByTableName,
                 cols\<lparr>change := obj_set modelColumnName modelColumnOptions (change cols)\<rparr>)
           else (obj_modify modelColumnName (\<lambda>e. (fst e, Some modelColumnName))
                   metaDataByTableName, cols)
       | None \<Rightarrow>
           if truthy (prevColumnName modelColumnOptions)
           then (if obj_get metaDataByTableName (js_key (prevColumnName modelColumnOptions)) \<noteq> None
                    \<and> modelColumnName \<noteq> js_key (prevColumnName modelColumnOptions)
                 then (obj_set modelColumnName (modelColumnOptions, None)
                         (obj_delete (js_key (prevColumnName modelColumnOptions)) metaDataByTableName),
                       cols\<lparr>rename := obj_set modelColumnName modelColumnOptions (rename cols)\<rparr>)
                 else (metaDataByTableName, cols))
           else (obj_set modelColumnName (modelColumnOptions, None) metaDataByTableName,
                 cols\<lparr>new := obj_set modelColumnName modelColumnOptions (new cols)\<rparr>)))"

text \<open>
  One iteration of the loop over \<^verbatim>\<open>Object.entries(metaDataByTableName)\<close> (lines 126 to 139);
  the entries are those the table had when the loop began. \<^verbatim>\<open>modelColumns[undefined]\<close> reads
  the property named \<^verbatim>\<open>undefined\<close>.
\<close>

definition backward ::
  "column obj \<Rightarrow> string \<times> entry \<Rightarrow> entry obj \<times> columns \<Rightarrow> entry obj \<times> columns" where
  "backward modelColumns ne s =
     (case ne of (currentColumnName, currentColumnOptions) \<Rightarrow>
      case s of (metaDataByTableName, cols) \<Rightarrow>
      (if obj_get modelColumns currentColumnName = None
          \<and> obj_get modelColumns (js_key (snd currentColumnOptions)) = None
       then (obj_delete currentColumnName metaDataByTableName,
             cols\<lparr>remove := remove cols @ [currentColumnName]\<rparr>)
       else (obj_modify currentColumnName (\<lambda>e. (fst e, None)) metaDataByTableName, cols)))"

text \<open>
  The first loop, from the table as the snapshot file gives it (no object carries
  \<^verbatim>\<open>nextColumnName\<close>) and empty buckets; then both loops, giving the final table and the
  buckets.
\<close>

definition forward_pass :: "column obj \<Rightarrow> column obj \<Rightarrow> entry obj \<times> columns" where
  "forward_pass modelColumns metaDataByTableName =
     fold forward modelColumns
       (map (\<lambda>(n, c). (n, (c, None))) metaDataByTableName,
        \<lparr>new = [], change = [], rename = [], remove = []\<rparr>)"

definition classify :: "column obj \<Rightarrow> column obj \<Rightarrow> entry obj \<times> columns" where
  "classify modelColumns metaDataByTableName =
     (let s1 = forward_pass modelColumns metaDataByTableName
      in fold (backward modelColumns) (fst s1) s1)"

definition table_of :: "entry obj \<Rightarrow> column obj" where
  "table_of m = map (\<lambda>(n, e). (n, fst e)) m"

text \<open>
  The four descriptors (lines 141 to 286). \<^verbatim>\<open>Object.keys\<close> of a bucket with
  \<^verbatim>\<open>bucket[columnName]\<close> is the bucket's entries in order; \<^verbatim>\<open>modelColumns[columnName]\<close> of a
  renamed column is the very object stored in \<^verbatim>\<open>columns.rename\<close>.
\<close>

definition add_migration :: "string \<Rightarrow> columns \<Rightarrow> migration list" where
  "add_migration t cols =
     (if new cols \<noteq> []
      then [\<lparr>label = (if length (obj_keys (new cols)) > 1 then ''add-columns-to'' else ''add-column-to''),
             up = map (\<lambda>(columnName, c). addColumn t columnName (Some c)) (new cols),
             down = map (\<lambda>(columnName, c). removeColumn t columnName) (new cols)\<rparr>]
      else [])"

definition change_migration :: "string \<Rightarrow> column obj \<Rightarrow> columns \<Rightarrow> migration list" where
  "change_migration t freezeMetaDataByTableName cols =
     (if change cols \<noteq> []
      then [\<lparr>label = (if length (obj_keys (change cols)) > 1
                      then ''change-columns-to'' else ''change-column-to''),
             up = map (\<lambda>(columnName, c). changeColumn t columnName (Some c)) (change cols),
             down = map (\<lambda>(columnName, c).
                      changeColumn t columnName (obj_get freezeMetaDataByTableName columnName))
                      (change cols)\<rparr>]
      else [])"

definition rename_migration :: "string \<Rightarrow> column obj \<Rightarrow> columns \<Rightarrow> migration list" where
  "rename_migration t freezeMetaDataByTableName cols =
     (if rename cols \<noteq> []
      then [\<lparr>label = (if length (obj_keys (rename cols)) > 1
                      then ''rename-columns-to'' else ''rename-column-to''),
             up = map (\<lambda>(columnName, c).
                      renameColumn t (js_key (prevColumnName c)) columnName (Some c)) (rename cols),
             down = map (\<lambda>(columnName, c).
                      renameColumn t columnName (js_key (prevColumnName c))
                        (obj_get freezeMetaDataByTableName (js_key (prevColumnName c))))
                      (rename cols)\<rparr>]
      else [])"

definition remove_migration :: "string \<Rightarrow> column obj \<Rightarrow> columns \<Rightarrow> migration list" where
  "remove_migration t freezeMetaDataByTableName cols =
     (if remove cols \<noteq> []
      then [\<lparr>label = (if length (remove cols) > 1
                      then ''remove-columns-from'' else ''remove-column-from''),
             up = map (\<lambda>columnName. removeColumn t columnName) (remove cols),
             down = map (\<lambda>columnName.
                      addColumn t columnName (obj_get freezeMetaDataByTableName columnName))
                      (remove cols)\<rparr>]
      else [])"

text \<open>
  The body of \<^verbatim>\<open>getRawMigrations\<close> once the model's columns are extracted: the table name,
  the current columns and the snapshot \<^verbatim>\<open>metaData\<close> go in; the thrown \<^verbatim>\<open>'no change'\<close> or the
  migrations come out, together with the snapshot as the call leaves it.
\<close>

definition diff ::
  "string \<Rightarrow> column obj \<Rightarrow> column obj obj \<Rightarrow> (error + migration list) \<times> column obj obj" where
  "diff t modelColumns metaData =
     (case obj_get metaData t of
        Some metaDataByTableName \<Rightarrow>
          (if equal metaDataByTableName modelColumns
           then (Inl NoChange, metaData)
           else (let freezeMetaDataByTableName = metaDataByTableName;
                     r = classify modelColumns metaDataByTableName
                 in (Inr (add_migration t (snd r)
                          @ change_migration t freezeMetaDataByTableName (snd r)
                          @ rename_migration t freezeMetaDataByTableName (snd r)
                          @ remove_migration t freezeMetaDataByTableName (snd r)),
                     obj_set t (table_of (fst r)) metaData)))
      | None \<Rightarrow>
          (Inr [\<lparr>label = ''initial'',
                 up = [createTable t modelColumns],
                 down = [dropTable t]\<rparr>],
           obj_set t modelColumns metaData))"


subsection \<open>The removal check without the next-name conjunct\<close>

text \<open>
  The second loop as the specification's open question proposes it: an entry is removed
  when its own name is absent from the current columns, and \<^verbatim>\<open>nextColumnName\<close> is not
  consulted. Everything else is as in \<open>backward\<close> and \<open>classify\<close>.
\<close>

definition backward_simple ::
  "column obj \<Rightarrow> string \<times> entry \<Rightarrow> entry obj \<times> columns \<Rightarrow> entry obj \<times> columns" where
  "backward_simple modelColumns ne s =
     (case ne of (currentColumnName, currentColumnOptions) \<Rightarrow>
      case s of (metaDataByTableName, cols) \<Rightarrow>
      (if obj_get modelColumns currentColumnName = None
       then (obj_delete currentColumnName metaDataByTableName,
             cols\<lparr>remove := remove cols @ [currentColumnName]\<rparr>)
       else (obj_modify currentColumnName (\<lambda>e. (fst e, None)) metaDataByTableName, cols)))"

definition classify_simple :: "column obj \<Rightarrow> column obj \<Rightarrow> entry obj \<times> columns" where
  "classify_simple modelColumns metaDataByTableName =
     (let s1 = forward_pass modelColumns metaDataByTableName
      in fold (backward_simple modelColumns) (fst s1) s1)"

section \<open>The column extractor: \<^verbatim>\<open>getModelColumns\<close>\<close>

definition baseColumns_id :: column where
  "baseColumns_id = \<lparr>column.type = ''DataTypes.INTEGER'', allowNull = Some False,
     autoIncrement = Some True, primaryKey = Some True, unique = None,
     prevColumnName = None, defaultValue = None\<rparr>"

definition baseColumns_createdAt :: column where
  "baseColumns_createdAt = \<lparr>column.type = ''DataTypes.DATE'', allowNull = Some False,
     autoIncrement = None, primaryKey = None, unique = None,
     prevColumnName = None, defaultValue = None\<rparr>"

definition baseColumns_updatedAt :: column where
  "baseColumns_updatedAt = \<lparr>column.type = ''DataTypes.DATE'', allowNull = Some False,
     autoIncrement = None, primaryKey = None, unique = None,
     prevColumnName = None, defaultValue = None\<rparr>"

definition baseColumns_deletedAt :: column where
  "baseColumns_deletedAt = \<lparr>column.type = ''DataTypes.DATE'', allowNull = None,
     autoIncrement = None, primaryKey = None, unique = None,
     prevColumnName = None, defaultValue = None\<rparr>"

definition baseColumns :: "column obj" where
  "baseColumns = [(''id'', baseColumns_id), (''createdAt'', baseColumns_createdAt),
     (''updatedAt'', baseColumns_updatedAt), (''deletedAt'', baseColumns_deletedAt)]"

text \<open>
  The object literal built for one attribute (lines 365 to 372), after the closing
  \<^verbatim>\<open>JSON.parse(JSON.stringify(columns))\<close>, which drops every key whose value is
  \<^verbatim>\<open>undefined\<close>.
\<close>

definition column_of :: "attribute \<Rightarrow> column" where
  "column_of modelColumnOptions =
     \<lparr>column.type = ''DataTypes.'' @ attribute.type modelColumnOptions,
      allowNull = (if attribute.allowNull modelColumnOptions = Some False then Some False else None),
      autoIncrement = None,
      primaryKey = attribute.primaryKey modelColumnOptions,
      unique = attribute.unique modelColumnOptions,
      prevColumnName = attribute.prevColumnName modelColumnOptions,
      defaultValue = attribute.defaultValue modelColumnOptions\<rparr>"

text \<open>
  The two guards of the loop over the attributes: the attribute's name is none of the keys
  of \<^verbatim>\<open>baseColumns\<close>, and its type is not \<^verbatim>\<open>VIRTUAL\<close>.
\<close>

definition persisted :: "string \<times> attribute \<Rightarrow> bool" where
  "persisted na =
     (fst na \<notin> set (obj_keys baseColumns) \<and> attribute.type (snd na) \<noteq> ''VIRTUAL'')"

definition extractColumn :: "string \<times> attribute \<Rightarrow> column obj \<Rightarrow> column obj" where
  "extractColumn na cols =
     (case na of (modelColumnName, modelColumnOptions) \<Rightarrow>
        if modelColumnName \<notin> set (obj_keys baseColumns)
        then (if attribute.type modelColumnOptions \<noteq> ''VIRTUAL''
              then obj_set (field modelColumnOptions) (column_of modelColumnOptions) cols
              else cols)
        else cols)"

definition getModelColumns :: "model \<Rightarrow> column obj" where
  "getModelColumns m =
     (let columns0 = (if obj_get (attributes m) ''id'' \<noteq> None then [(''id'', baseColumns_id)] else []);
          columns1 = fold extractColumn (attributes m) columns0;
          columns2 = (if timestamps (options m)
                      then obj_set ''updatedAt'' baseColumns_updatedAt
                             (obj_set ''createdAt'' baseColumns_createdAt columns1)
                      else columns1)
      in if paranoid (options m) then obj_set ''deletedAt'' baseColumns_deletedAt columns2
         else columns2)"

definition getRawMigrations ::
  "model \<Rightarrow> column obj obj \<Rightarrow> (error + migration list) \<times> column obj obj" where
  "getRawMigrations m metaData = diff (tableName (options m)) (getModelColumns m) metaData"


section \<open>The renderer's post-processing: \<^verbatim>\<open>formatMigrationContent\<close>\<close>

text \<open>
  A text is a list of code units; the code units above 255 (among them the Unicode spaces
  and line separators that \<^verbatim>\<open>\s\<close> and \<^verbatim>\<open>.\<close> know) are outside the model.
\<close>

definition dquote :: char where
  "dquote = CHR 0x22"

definition is_line_terminator :: "char \<Rightarrow> bool" where
  "is_line_terminator c = (c = CHR 0x0A \<or> c = CHR 0x0D)"

text \<open>
  The regular expression \<^verbatim>\<open>"type":\s+("DataTypes.+")\<close>: the literal key, at least one
  white-space character, then group 1, which is the literal \<^verbatim>\<open>"DataTypes\<close>, at least one
  character other than a line terminator, and a closing double quote. Both repetitions are
  greedy: \<^verbatim>\<open>\s+\<close> must take the whole run of white space (a double quote has to follow),
  and \<^verbatim>\<open>.+\<close> runs to the end of the line and backs up to the last double quote that leaves
  it at least one character.
\<close>

definition type_key :: string where
  "type_key = dquote # ''type'' @ [dquote] @ '':''"

definition type_tag :: string where
  "type_tag = dquote # ''DataTypes''"

definition up_to_last_quote :: "string \<Rightarrow> string" where
  "up_to_last_quote line = rev (dropWhile (\<lambda>c. c \<noteq> dquote) (rev line))"

text \<open>A match that starts at the head of the text: group 1 and the text after the match.\<close>

definition match_here :: "string \<Rightarrow> (string \<times> string) option" where
  "match_here s =
     (if prefix type_key s
      then (let r1 = drop (length type_key) s;
                r2 = dropWhile is_space r1
            in if takeWhile is_space r1 \<noteq> [] \<and> prefix type_tag r2
               then (let r3 = drop (length type_tag) r2;
                         p = up_to_last_quote (takeWhile (\<lambda>c. \<not> is_line_terminator c) r3)
                     in if length p \<ge> 2 then Some (type_tag @ p, drop (length p) r3) else None)
               else None)
      else None)"

lemma match_here_shorter: "match_here s = Some (g, rest) \<Longrightarrow> length rest < length s"
proof -
  assume m: "match_here s = Some (g, rest)"
  then have p: "prefix type_key s"
    by (simp add: match_here_def split: if_splits)
  then have "length type_key \<le> length s" by (rule prefix_length_le)
  then have 1: "length (drop (length type_key) s) < length s"
    by (simp add: type_key_def)
  let ?r2 = "dropWhile is_space (drop (length type_key) s)"
  have 2: "length ?r2 \<le> length (drop (length type_key) s)"
    by (rule length_dropWhile_le)
  from m p obtain n where "rest = drop n (drop (length type_tag) ?r2)"
    by (auto simp: match_here_def Let_def split: if_splits)
  then have "length rest \<le> length ?r2" by simp
  with 1 2 show ?thesis by linarith
qed

text \<open>
  \<^verbatim>\<open>matchAll\<close> with the global flag, mapped to group 1: the matches from left to right,
  each search resuming where the previous match ended.
\<close>

function matchAll :: "string \<Rightarrow> string list" where
  "matchAll s =
     (if s = [] then []
      else (case match_here s of
              Some (g, rest) \<Rightarrow> g # matchAll rest
            | None \<Rightarrow> matchAll (tl s)))"
  by pat_completeness auto
termination
  by (relation "measure length") (auto dest: match_here_shorter)

text \<open>
  \<^verbatim>\<open>String.prototype.replaceAll\<close> with a string pattern: the occurrences found from left to
  right without overlap are replaced; the empty pattern matches between all code units.
  The replacement is put in as it is: this is \<^verbatim>\<open>replaceAll\<close> for a replacement text without
  \<^verbatim>\<open>$\<close>.
\<close>

function replaceAll :: "string \<Rightarrow> string \<Rightarrow> string \<Rightarrow> string" where
  "replaceAll pat rep s =
     (if pat = [] then rep @ concat (map (\<lambda>c. c # rep) s)
      else if s = [] then []
      else if prefix pat s then rep @ replaceAll pat rep (drop (length pat) s)
      else hd s # replaceAll pat rep (tl s))"
  by pat_completeness auto
termination
  by (relation "measure (\<lambda>(pat, rep, s). length s)") auto

text \<open>\<^verbatim>\<open>[...new Set(matchedTypes.map(([, type]) => type))]\<close>: first occurrences, in order.\<close>

definition formattedTypes :: "string \<Rightarrow> string list" where
  "formattedTypes migrationContent = rev (remdups (rev (matchAll migrationContent)))"

definition formatMigrationContent :: "string \<Rightarrow> string" where
  "formatMigrationContent migrationContent =
     fold (\<lambda>type content. replaceAll type (replaceAll [dquote] [] type) content)
       (formattedTypes migrationContent) migrationContent"

section \<open>Example declarations\<close>

text \<open>
  A model of a table \<^verbatim>\<open>users\<close> with a primary key and a string column \<^verbatim>\<open>mail\<close> that
  declares \<^verbatim>\<open>email\<close> as its previous name, and the attribute \<^verbatim>\<open>email\<close> as an earlier
  version of the model declared it.
\<close>

definition id_attribute :: attribute where
  "id_attribute = \<lparr>attribute.type = ''INTEGER'', attribute.field = ''id'', attribute.allowNull = Some False,
     attribute.unique = None, attribute.primaryKey = Some True, attribute.prevColumnName = None,
     attribute.defaultValue = None\<rparr>"

definition email_attribute :: attribute where
  "email_attribute = \<lparr>attribute.type = ''STRING'', attribute.field = ''email'', attribute.allowNull = Some False,
     attribute.unique = Some True, attribute.primaryKey = None, attribute.prevColumnName = None,
     attribute.defaultValue = None\<rparr>"

definition mail_attribute :: attribute where
  "mail_attribute = \<lparr>attribute.type = ''STRING'', attribute.field = ''mail'', attribute.allowNull = Some False,
     attribute.unique = Some True, attribute.primaryKey = None,
     attribute.prevColumnName = Some ''email'', attribute.defaultValue = None\<rparr>"

definition users_model :: model where
  "users_model = \<lparr>attributes = [(''id'', id_attribute), (''mail'', mail_attribute)],
     options = \<lparr>tableName = ''users'', autoMigrations = True, timestamps = False,
                paranoid = False\<rparr>\<rparr>"

text \<open>
  The pretty-printed definitions of two date columns, as \<^verbatim>\<open>JSON.stringify\<close> with an
  indentation of two lays them out.
\<close>

definition two_dates :: string where
  "two_dates =
     ''{'' @ [CHR 0x0A] @
     ''  '' @ [dquote] @ ''type'' @ [dquote] @ '': '' @ [dquote] @ ''DataTypes.DATE'' @ [dquote]
       @ '','' @ [CHR 0x0A] @
     ''  '' @ [dquote] @ ''allowNull'' @ [dquote] @ '': false'' @ [CHR 0x0A] @
     ''}, {'' @ [CHR 0x0A] @
     ''  '' @ [dquote] @ ''type'' @ [dquote] @ '': '' @ [dquote] @ ''DataTypes.DATE'' @ [dquote]
       @ [CHR 0x0A] @
     ''}''"

section \<open>Invariants of the first loop\<close>

text \<open>A \<^verbatim>\<open>nextColumnName\<close> on an object of the table is the name the object is stored under.\<close>

definition tags_own :: "entry obj \<Rightarrow> bool" where
  "tags_own meta = (\<forall>k e. (k, e) \<in> set meta \<longrightarrow> snd e = None \<or> snd e = Some k)"

text \<open>
  With \<open>V\<close> the names the loop has visited: under a visited name the table holds a
  definition that is deep-equal to the current one.
\<close>

definition cur_inside :: "string set \<Rightarrow> column obj \<Rightarrow> entry obj \<Rightarrow> bool" where
  "cur_inside V cur meta =
     (\<forall>k e. k \<in> V \<and> obj_get meta k = Some e \<longrightarrow>
        (\<exists>c. obj_get cur k = Some c \<and> equal_column (fst e) c))"

text \<open>
  A column \<open>n0\<close> in the rename bucket has been visited, has a truthy hint, and is in the
  table as the current columns declare it; the previous name of a renamed column, unless
  it is a current name, is no longer in the table.
\<close>

definition rename_kept :: "string \<Rightarrow> string set \<Rightarrow> entry obj \<times> columns \<Rightarrow> bool" where
  "rename_kept n0 V s =
     (\<forall>c. (n0, c) \<in> set (rename (snd s)) \<longrightarrow>
        n0 \<in> V \<and> obj_get (fst s) n0 = Some (c, None) \<and> truthy (prevColumnName c))"

definition rename_ok :: "column obj \<Rightarrow> entry obj \<times> columns \<Rightarrow> bool" where
  "rename_ok cur s =
     (\<forall>n c. (n, c) \<in> set (rename (snd s)) \<longrightarrow>
        obj_get cur (js_key (prevColumnName c)) = None \<longrightarrow>
        obj_get (fst s) (js_key (prevColumnName c)) = None)"


section \<open>Properties of objects\<close>

lemma obj_get_set [simp]:
  "obj_get (obj_set k v ob) k' = (if k' = k then Some v else obj_get ob k')"
  by (simp add: obj_get_def obj_set_def update_conv')

lemma obj_get_delete [simp]:
  "obj_get (obj_delete k ob) k' = (if k' = k then None else obj_get ob k')"
  by (simp add: obj_get_def obj_delete_def delete_conv')

lemma obj_get_modify [simp]:
  "obj_get (obj_modify k f ob) k' = (if k' = k then map_option f (obj_get ob k) else obj_get ob k')"
  by (simp add: obj_get_def obj_modify_def map_of_map_entry split: option.splits)

lemma set_obj_set: "x \<in> set (obj_set k v ob) \<Longrightarrow> x = (k, v) \<or> x \<in> set ob"
  unfolding obj_set_def by (induction ob) (auto split: if_splits)

lemma set_obj_delete: "x \<in> set (obj_delete k ob) \<Longrightarrow> x \<in> set ob \<and> fst x \<noteq> k"
  unfolding obj_delete_def by (auto simp: AList.delete_eq)

lemma set_obj_modify:
  "x \<in> set (obj_modify k f ob) \<Longrightarrow> x \<in> set ob \<or> (\<exists>v. (k, v) \<in> set ob \<and> x = (k, f v))"
  unfolding obj_modify_def by (induction ob) (auto split: if_splits)

lemma obj_get_None_iff: "obj_get ob k = None \<longleftrightarrow> k \<notin> fst ` set ob"
  by (simp add: obj_get_def map_of_eq_None_iff)

lemma obj_get_in_set: "obj_get ob k = Some v \<Longrightarrow> (k, v) \<in> set ob"
  by (simp add: obj_get_def map_of_SomeD)

lemma obj_get_distinct: "distinct (map fst ob) \<Longrightarrow> (k, v) \<in> set ob \<Longrightarrow> obj_get ob k = Some v"
  by (simp add: obj_get_def)

lemma obj_get_table_of [simp]: "obj_get (table_of m) k = map_option fst (obj_get m k)"
  unfolding table_of_def obj_get_def by (induction m) auto

lemma obj_get_initial:
  "obj_get (map (\<lambda>(n, c). (n, (c, None))) prior) k = map_option (\<lambda>c. (c, None)) (obj_get prior k)"
  unfolding obj_get_def by (induction prior) auto

lemma loose_eq_refl [simp]: "loose_eq v v"
  by (cases v) simp_all

lemma equal_column_refl [simp]: "equal_column c c"
  by (simp add: equal_column_def split: option.splits)

lemma equal_column_hint: "equal_column d c \<Longrightarrow> prevColumnName d = prevColumnName c"
  by (simp add: equal_column_def)

lemma equal_lookup:
  assumes "equal a b" "obj_get a k = Some v"
  shows "\<exists>w. obj_get b k = Some w \<and> equal_column v w"
proof -
  from assms(2) have "(k, v) \<in> set a" by (rule obj_get_in_set)
  with assms(1) have "case obj_get b k of Some w \<Rightarrow> equal_column v w | None \<Rightarrow> False"
    unfolding equal_def list_all_iff by auto
  then show ?thesis by (cases "obj_get b k") auto
qed

lemma equal_iff:
  assumes "distinct (obj_keys a)" "distinct (obj_keys b)"
  shows "equal a b \<longleftrightarrow>
           set (obj_keys a) = set (obj_keys b)
           \<and> (\<forall>k v w. obj_get a k = Some v \<and> obj_get b k = Some w \<longrightarrow> equal_column v w)"
proof
  assume e: "equal a b"
  have sub: "set (obj_keys a) \<subseteq> set (obj_keys b)"
  proof
    fix k assume "k \<in> set (obj_keys a)"
    then obtain v where "(k, v) \<in> set a" by (auto simp: obj_keys_def)
    with assms(1) have "obj_get a k = Some v" by (simp add: obj_get_distinct obj_keys_def)
    from equal_lookup [OF e this] show "k \<in> set (obj_keys b)"
      by (auto simp: obj_keys_def dest: obj_get_in_set intro: rev_image_eqI)
  qed
  from e have "length (obj_keys a) = length (obj_keys b)"
    by (simp add: equal_def obj_keys_def)
  with assms have "card (set (obj_keys a)) = card (set (obj_keys b))"
    by (simp add: distinct_card)
  with sub have "set (obj_keys a) = set (obj_keys b)"
    by (simp add: card_subset_eq)
  moreover have "\<forall>k v w. obj_get a k = Some v \<and> obj_get b k = Some w \<longrightarrow> equal_column v w"
    using equal_lookup [OF e] by fastforce
  ultimately show "set (obj_keys a) = set (obj_keys b)
           \<and> (\<forall>k v w. obj_get a k = Some v \<and> obj_get b k = Some w \<longrightarrow> equal_column v w)"
    by simp
next
  assume r: "set (obj_keys a) = set (obj_keys b)
           \<and> (\<forall>k v w. obj_get a k = Some v \<and> obj_get b k = Some w \<longrightarrow> equal_column v w)"
  with assms have "length (obj_keys a) = length (obj_keys b)"
    by (metis distinct_card)
  then have l: "length a = length b" by (simp add: obj_keys_def)
  have "\<forall>x \<in> set a. case x of (k, v) \<Rightarrow>
          (case obj_get b k of Some w \<Rightarrow> equal_column v w | None \<Rightarrow> False)"
  proof
    fix x assume x: "x \<in> set a"
    obtain k v where kv: "x = (k, v)" by (cases x)
    with x assms(1) have a: "obj_get a k = Some v"
      by (simp add: obj_get_distinct obj_keys_def)
    from x kv have "k \<in> set (obj_keys a)" by (force simp: obj_keys_def)
    with r have "k \<in> fst ` set b" by (simp add: obj_keys_def)
    then obtain w where b: "obj_get b k = Some w"
      using obj_get_None_iff [of b k] by (cases "obj_get b k") auto
    with a r have "equal_column v w" by blast
    with b kv show "case x of (k, v) \<Rightarrow>
          (case obj_get b k of Some w \<Rightarrow> equal_column v w | None \<Rightarrow> False)" by simp
  qed
  with l show "equal a b" by (simp add: equal_def list_all_iff)
qed

section \<open>The first loop\<close>

lemma forward_cases [case_names unchanged changed renamed ignored added]:
  obtains
    e where "obj_get meta n = Some e" "equal_entry e c"
      "forward (n, c) (meta, cols) = (obj_modify n (\<lambda>e. (fst e, Some n)) meta, cols)"
  | e where "obj_get meta n = Some e" "\<not> equal_entry e c"
      "forward (n, c) (meta, cols) =
         (obj_set n (c, None) meta, cols\<lparr>change := obj_set n c (change cols)\<rparr>)"
  | "obj_get meta n = None" "truthy (prevColumnName c)"
      "obj_get meta (js_key (prevColumnName c)) \<noteq> None" "n \<noteq> js_key (prevColumnName c)"
      "forward (n, c) (meta, cols) =
         (obj_set n (c, None) (obj_delete (js_key (prevColumnName c)) meta),
          cols\<lparr>rename := obj_set n c (rename cols)\<rparr>)"
  | "obj_get meta n = None" "truthy (prevColumnName c)"
      "obj_get meta (js_key (prevColumnName c)) = None \<or> n = js_key (prevColumnName c)"
      "forward (n, c) (meta, cols) = (meta, cols)"
  | "obj_get meta n = None" "\<not> truthy (prevColumnName c)"
      "forward (n, c) (meta, cols) =
         (obj_set n (c, None) meta, cols\<lparr>new := obj_set n c (new cols)\<rparr>)"
proof (cases "obj_get meta n")
  case None
  show ?thesis
  proof (cases "truthy (prevColumnName c)")
    case hint: True
    show ?thesis
    proof (cases "obj_get meta (js_key (prevColumnName c)) \<noteq> None
                  \<and> n \<noteq> js_key (prevColumnName c)")
      case True
      have "forward (n, c) (meta, cols) =
         (obj_set n (c, None) (obj_delete (js_key (prevColumnName c)) meta),
          cols\<lparr>rename := obj_set n c (rename cols)\<rparr>)"
        using None hint True by (simp add: forward_def)
      with None hint True show ?thesis by (intro that(3)) simp_all
    next
      case False
      have stay: "forward (n, c) (meta, cols) = (meta, cols)"
        using None hint False by (auto simp: forward_def)
      have "obj_get meta (js_key (prevColumnName c)) = None \<or> n = js_key (prevColumnName c)"
        using False by blast
      then show ?thesis by (rule that(4) [OF None hint _ stay])
    qed
  next
    case False
    have "forward (n, c) (meta, cols) =
         (obj_set n (c, None) meta, cols\<lparr>new := obj_set n c (new cols)\<rparr>)"
      using None False by (simp add: forward_def)
    with None False show ?thesis by (intro that(5))
  qed
next
  case (Some e)
  show ?thesis
  proof (cases "equal_entry e c")
    case True
    have "forward (n, c) (meta, cols) = (obj_modify n (\<lambda>e. (fst e, Some n)) meta, cols)"
      using Some True by (simp add: forward_def)
    with Some True show ?thesis by (intro that(1))
  next
    case False
    have "forward (n, c) (meta, cols) =
         (obj_set n (c, None) meta, cols\<lparr>change := obj_set n c (change cols)\<rparr>)"
      using Some False by (simp add: forward_def)
    with Some False show ?thesis by (intro that(2))
  qed
qed

lemma tags_own_forward:
  assumes "tags_own meta"
  shows "tags_own (fst (forward (n, c) (meta, cols)))"
proof (cases rule: forward_cases [of meta n c cols])
  case (unchanged e)
  then show ?thesis using assms unfolding tags_own_def
    by (auto dest!: set_obj_modify)
next
  case (changed e)
  then show ?thesis using assms unfolding tags_own_def
    by (auto dest!: set_obj_set)
next
  case renamed
  then show ?thesis using assms unfolding tags_own_def
    by (auto dest!: set_obj_set set_obj_delete)
next
  case ignored
  then show ?thesis using assms by simp
next
  case added
  then show ?thesis using assms unfolding tags_own_def
    by (auto dest!: set_obj_set)
qed

lemma tags_own_fold:
  "tags_own (fst s) \<Longrightarrow> tags_own (fst (fold forward xs s))"
proof (induction xs arbitrary: s)
  case Nil
  then show ?case by simp
next
  case (Cons x xs)
  obtain n c where x: "x = (n, c)" by (cases x)
  obtain meta cols where s: "s = (meta, cols)" by (cases s)
  show ?case using Cons.IH [of "forward x s"] tags_own_forward [of meta n c cols] Cons.prems
    by (simp add: x s)
qed

lemma tags_own_initial: "tags_own (map (\<lambda>(n, c). (n, (c, None))) prior)"
  unfolding tags_own_def by auto


lemma cur_inside_forward:
  assumes "cur_inside V cur meta" "obj_get cur n = Some c"
  shows "cur_inside (insert n V) cur (fst (forward (n, c) (meta, cols)))"
  using assms unfolding cur_inside_def
  by (cases rule: forward_cases [of meta n c cols])
     (auto simp: equal_entry_def split: if_splits)

lemma rename_kept_forward:
  assumes "rename_kept n0 V (meta, cols)" "n \<notin> V" "prevColumnName c \<noteq> Some n0"
  shows "rename_kept n0 (insert n V) (forward (n, c) (meta, cols))"
proof (cases rule: forward_cases [of meta n c cols])
  case (unchanged e)
  with assms(1,2) show ?thesis unfolding rename_kept_def by auto
next
  case (changed e)
  with assms(1,2) show ?thesis unfolding rename_kept_def by auto
next
  case renamed
  from renamed(2) assms(3) have p: "js_key (prevColumnName c) \<noteq> n0"
    by (cases "prevColumnName c") (auto simp: truthy_def js_key_def)
  show ?thesis unfolding rename_kept_def
  proof (intro allI impI)
    fix c0 assume "(n0, c0) \<in> set (rename (snd (forward (n, c) (meta, cols))))"
    with renamed(5) have "(n0, c0) = (n, c) \<or> (n0, c0) \<in> set (rename cols)"
      by (auto dest: set_obj_set)
    then show "n0 \<in> insert n V
        \<and> obj_get (fst (forward (n, c) (meta, cols))) n0 = Some (c0, None)
        \<and> truthy (prevColumnName c0)"
    proof
      assume "(n0, c0) = (n, c)"
      with renamed(2,5) show ?thesis by simp
    next
      assume "(n0, c0) \<in> set (rename cols)"
      with assms(1) have k: "n0 \<in> V" "obj_get meta n0 = Some (c0, None)"
        "truthy (prevColumnName c0)"
        unfolding rename_kept_def by auto
      with assms(2) have "n0 \<noteq> n" by auto
      with k p renamed(5) show ?thesis by simp
    qed
  qed
next
  case ignored
  with assms(1) show ?thesis unfolding rename_kept_def by auto
next
  case added
  with assms(1,2) show ?thesis unfolding rename_kept_def by auto
qed

lemma rename_ok_forward:
  assumes "rename_ok cur (meta, cols)" "obj_get cur n \<noteq> None"
  shows "rename_ok cur (forward (n, c) (meta, cols))"
  using assms unfolding rename_ok_def
  by (cases rule: forward_cases [of meta n c cols])
     (auto dest!: set_obj_set split: if_splits)

lemma remove_forward: "remove (snd (forward (n, c) (meta, cols))) = remove cols"
  by (cases rule: forward_cases [of meta n c cols]) auto


lemma fold_forward_cur_inside:
  assumes "\<forall>n c. (n, c) \<in> set xs \<longrightarrow> obj_get cur n = Some c" "cur_inside V cur (fst s)"
  shows "cur_inside (V \<union> fst ` set xs) cur (fst (fold forward xs s))"
  using assms
proof (induction xs arbitrary: V s)
  case Nil
  then show ?case by simp
next
  case (Cons x xs)
  obtain n c where x: "x = (n, c)" by (cases x)
  obtain meta cols where s: "s = (meta, cols)" by (cases s)
  have cn: "obj_get cur n = Some c" using Cons.prems(1) x by simp
  have 1: "cur_inside (insert n V) cur (fst (forward (n, c) (meta, cols)))"
    using Cons.prems(2) s cn by (simp add: cur_inside_forward)
  have m: "\<forall>n c. (n, c) \<in> set xs \<longrightarrow> obj_get cur n = Some c" using Cons.prems(1) by simp
  have u: "insert n V \<union> fst ` set xs = V \<union> fst ` set (x # xs)" using x by auto
  from Cons.IH [OF m 1] show ?case unfolding u by (simp add: x s)
qed

lemma fold_forward_rename_kept:
  assumes "distinct (map fst xs)" "fst ` set xs \<inter> V = {}"
    and "\<forall>n c. (n, c) \<in> set xs \<longrightarrow> prevColumnName c \<noteq> Some n0"
    and "rename_kept n0 V s"
  shows "rename_kept n0 (V \<union> fst ` set xs) (fold forward xs s)"
  using assms
proof (induction xs arbitrary: V s)
  case Nil
  then show ?case by simp
next
  case (Cons x xs)
  obtain n c where x: "x = (n, c)" by (cases x)
  obtain meta cols where s: "s = (meta, cols)" by (cases s)
  have nV: "n \<notin> V" using Cons.prems(2) x by auto
  have h: "prevColumnName c \<noteq> Some n0" using Cons.prems(3) x by simp
  have 1: "rename_kept n0 (insert n V) (forward (n, c) (meta, cols))"
    using Cons.prems(4) s nV h by (simp add: rename_kept_forward)
  have d: "distinct (map fst xs)" using Cons.prems(1) by simp
  have i: "fst ` set xs \<inter> insert n V = {}" using Cons.prems(1,2) x by auto
  have m: "\<forall>n c. (n, c) \<in> set xs \<longrightarrow> prevColumnName c \<noteq> Some n0"
    using Cons.prems(3) by simp
  have u: "insert n V \<union> fst ` set xs = V \<union> fst ` set (x # xs)" using x by auto
  from Cons.IH [OF d i m 1] show ?case unfolding u by (simp add: x s)
qed

lemma fold_forward_rename_ok:
  assumes "\<forall>n c. (n, c) \<in> set xs \<longrightarrow> obj_get cur n \<noteq> None" "rename_ok cur s"
  shows "rename_ok cur (fold forward xs s)"
  using assms
proof (induction xs arbitrary: s)
  case Nil
  then show ?case by simp
next
  case (Cons x xs)
  obtain n c where x: "x = (n, c)" by (cases x)
  obtain meta cols where s: "s = (meta, cols)" by (cases s)
  have step: "rename_ok cur (forward x s)"
    using Cons.prems rename_ok_forward [of cur meta cols n c] by (simp add: x s)
  have rest: "\<forall>n c. (n, c) \<in> set xs \<longrightarrow> obj_get cur n \<noteq> None"
    using Cons.prems(1) by simp
  from Cons.IH [OF rest step] show ?case by simp
qed

lemma fold_forward_remove: "remove (snd (fold forward xs s)) = remove (snd s)"
proof (induction xs arbitrary: s)
  case Nil
  then show ?case by simp
next
  case (Cons x xs)
  obtain n c where x: "x = (n, c)" by (cases x)
  obtain meta cols where s: "s = (meta, cols)" by (cases s)
  show ?case using Cons.IH [of "forward x s"] remove_forward [of n c meta cols]
    by (simp add: x s)
qed

section \<open>The second loop\<close>

lemma backward_buckets:
  "new (snd (backward cur ne s)) = new (snd s)"
  "change (snd (backward cur ne s)) = change (snd s)"
  "rename (snd (backward cur ne s)) = rename (snd s)"
  by (cases ne; cases s; simp add: backward_def)+

lemma fold_backward_buckets:
  "new (snd (fold (backward cur) es s)) = new (snd s)
   \<and> change (snd (fold (backward cur) es s)) = change (snd s)
   \<and> rename (snd (fold (backward cur) es s)) = rename (snd s)"
  by (induction es arbitrary: s) (simp_all add: backward_buckets)

lemma backward_lookup:
  "obj_get (fst (backward cur ne s)) k = None
   \<or> map_option fst (obj_get (fst (backward cur ne s)) k) = map_option fst (obj_get (fst s) k)"
  by (cases ne; cases s) (auto simp: backward_def option.map_comp comp_def)

lemma fold_backward_lookup:
  "obj_get (fst (fold (backward cur) es s)) k = None
   \<or> map_option fst (obj_get (fst (fold (backward cur) es s)) k) = map_option fst (obj_get (fst s) k)"
proof (induction es arbitrary: s)
  case Nil
  then show ?case by simp
next
  case (Cons e es)
  from Cons.IH [of "backward cur e s"] backward_lookup [of cur e s k]
  show ?case by auto
qed

lemma backward_remove:
  "k \<in> set (remove (snd (backward cur ne s))) \<Longrightarrow>
     k \<in> set (remove (snd s))
     \<or> (k = fst ne \<and> obj_get cur k = None \<and> obj_get (fst (backward cur ne s)) k = None)"
  by (cases ne; cases s) (auto simp: backward_def split: if_splits)

lemma fold_backward_remove:
  "k \<in> set (remove (snd (fold (backward cur) es s))) \<Longrightarrow>
     k \<in> set (remove (snd s))
     \<or> (k \<in> fst ` set es \<and> obj_get cur k = None \<and> obj_get (fst (fold (backward cur) es s)) k = None)"
proof (induction es arbitrary: s)
  case Nil
  then show ?case by simp
next
  case (Cons e es)
  from Cons.IH [of "backward cur e s"] Cons.prems
  consider "k \<in> set (remove (snd (backward cur e s)))"
    | "k \<in> fst ` set es" "obj_get cur k = None"
      "obj_get (fst (fold (backward cur) es (backward cur e s))) k = None"
    by auto
  then show ?case
  proof cases
    case 1
    from backward_remove [OF 1] fold_backward_lookup [of cur es "backward cur e s" k]
    show ?thesis by auto
  next
    case 2
    then show ?thesis by auto
  qed
qed


lemma classify_forward_pass:
  "classify cur prior =
     fold (backward cur) (fst (forward_pass cur prior)) (forward_pass cur prior)"
  by (simp add: classify_def Let_def)

lemma forward_pass_inv:
  assumes "distinct (map fst cur)"
  shows "cur_inside (fst ` set cur) cur (fst (forward_pass cur prior))"
proof -
  let ?s0 = "(map (\<lambda>(n, c). (n, (c, None))) prior,
              \<lparr>new = [], change = [], rename = [], remove = []\<rparr>)"
  have m: "\<forall>n c. (n, c) \<in> set cur \<longrightarrow> obj_get cur n = Some c"
    using assms by (simp add: obj_get_distinct)
  have 2: "cur_inside {} cur (fst ?s0)" by (simp add: cur_inside_def)
  from fold_forward_cur_inside [OF m 2] show ?thesis
    by (simp add: forward_pass_def)
qed

lemma forward_pass_rename_kept:
  assumes "distinct (map fst cur)"
    and "\<forall>n c. (n, c) \<in> set cur \<longrightarrow> prevColumnName c \<noteq> Some n0"
  shows "rename_kept n0 (fst ` set cur) (forward_pass cur prior)"
proof -
  let ?s0 = "(map (\<lambda>(n, c). (n, (c, None))) prior,
              \<lparr>new = [], change = [], rename = [], remove = []\<rparr>)"
  have 0: "rename_kept n0 {} ?s0" by (simp add: rename_kept_def)
  from fold_forward_rename_kept [OF assms(1) _ assms(2) 0] show ?thesis
    by (simp add: forward_pass_def)
qed

lemma forward_pass_rename_ok: "rename_ok cur (forward_pass cur prior)"
proof -
  have "\<forall>n c. (n, c) \<in> set cur \<longrightarrow> obj_get cur n \<noteq> None"
    using obj_get_None_iff [of cur] by (metis fst_conv image_eqI)
  then show ?thesis unfolding forward_pass_def
    by (rule fold_forward_rename_ok) (simp add: rename_ok_def)
qed

lemma forward_pass_tags_own: "tags_own (fst (forward_pass cur prior))"
  unfolding forward_pass_def by (rule tags_own_fold) (simp add: tags_own_initial)

lemma forward_pass_remove: "remove (snd (forward_pass cur prior)) = []"
  by (simp add: forward_pass_def fold_forward_remove)

lemma classify_remove:
  assumes "k \<in> set (remove (snd (classify cur prior)))"
  shows "obj_get (fst (forward_pass cur prior)) k \<noteq> None" "obj_get cur k = None"
    "obj_get (fst (classify cur prior)) k = None"
  using fold_backward_remove [of k cur "fst (forward_pass cur prior)" "forward_pass cur prior"] assms
  by (auto simp: classify_forward_pass forward_pass_remove obj_get_None_iff)

lemma classify_buckets:
  "new (snd (classify cur prior)) = new (snd (forward_pass cur prior))"
  "change (snd (classify cur prior)) = change (snd (forward_pass cur prior))"
  "rename (snd (classify cur prior)) = rename (snd (forward_pass cur prior))"
  by (simp_all add: classify_forward_pass fold_backward_buckets)

lemma classify_lookup:
  assumes "distinct (map fst cur)" "obj_get (fst (classify cur prior)) n = Some e"
    "obj_get cur n = Some c"
  shows "equal_column (fst e) c"
proof -
  from fold_backward_lookup [of cur "fst (forward_pass cur prior)" "forward_pass cur prior" n] assms(2)
  have "map_option fst (obj_get (fst (forward_pass cur prior)) n) = Some (fst e)"
    by (simp add: classify_forward_pass)
  then obtain e' where e': "obj_get (fst (forward_pass cur prior)) n = Some e'" "fst e' = fst e"
    by (cases "obj_get (fst (forward_pass cur prior)) n") auto
  from assms(3) have n: "n \<in> fst ` set cur" using obj_get_None_iff [of cur n] by auto
  from forward_pass_inv [OF assms(1), of prior, unfolded cur_inside_def, rule_format, of n e'] n e'(1)
  obtain c' where "obj_get cur n = Some c'" "equal_column (fst e') c'" by auto
  with assms(3) e'(2) show ?thesis by simp
qed

lemma backward_keep:
  assumes "obj_get cur k \<noteq> None"
  shows "map_option fst (obj_get (fst (backward cur ne s)) k) = map_option fst (obj_get (fst s) k)"
proof (cases ne; cases s)
  fix a b m cols assume h: "ne = (a, b)" "s = (m, cols)"
  show ?thesis
  proof (cases "k = a")
    case True
    with assms h show ?thesis
      by (cases "obj_get m a") (simp_all add: backward_def obj_get_modify)
  next
    case False
    with assms h show ?thesis
      by (simp add: backward_def obj_get_modify obj_get_delete)
  qed
qed

lemma fold_backward_keep:
  assumes "obj_get cur k \<noteq> None"
  shows "map_option fst (obj_get (fst (fold (backward cur) es s)) k)
           = map_option fst (obj_get (fst s) k)"
  using backward_keep [OF assms] by (induction es arbitrary: s) simp_all

lemma classify_renamed:
  assumes "distinct (map fst cur)"
    and "(n, c) \<in> set (rename (snd (classify cur prior)))"
    and "\<forall>n' c'. (n', c') \<in> set cur \<longrightarrow> prevColumnName c' \<noteq> Some n"
  shows "obj_get (table_of (fst (classify cur prior))) n = Some c"
    and "truthy (prevColumnName c)"
proof -
  from assms(2) have r: "(n, c) \<in> set (rename (snd (forward_pass cur prior)))"
    by (simp add: classify_buckets)
  with forward_pass_rename_kept [OF assms(1,3), of prior]
  have k: "n \<in> fst ` set cur" "obj_get (fst (forward_pass cur prior)) n = Some (c, None)"
    and t: "truthy (prevColumnName c)"
    unfolding rename_kept_def by auto
  from k(1) have "obj_get cur n \<noteq> None" by (simp add: obj_get_None_iff)
  from fold_backward_keep [OF this, of "fst (forward_pass cur prior)" "forward_pass cur prior"] k(2)
  show "obj_get (table_of (fst (classify cur prior))) n = Some c"
    by (simp add: classify_forward_pass)
  from t show "truthy (prevColumnName c)" .
qed

lemma backward_simple_eq:
  assumes "obj_get cur ''undefined'' = None" "snd e = None \<or> snd e = Some k"
  shows "backward cur (k, e) s = backward_simple cur (k, e) s"
  using assms by (cases s) (auto simp: backward_def backward_simple_def js_key_def)

lemma diff_changed:
  assumes "obj_get metaData t = Some prior" "fst (diff t modelColumns metaData) = Inr ms"
  shows "ms = add_migration t (snd (classify modelColumns prior))
            @ change_migration t prior (snd (classify modelColumns prior))
            @ rename_migration t prior (snd (classify modelColumns prior))
            @ remove_migration t prior (snd (classify modelColumns prior))"
    and "snd (diff t modelColumns metaData) =
           obj_set t (table_of (fst (classify modelColumns prior))) metaData"
  using assms by (auto simp: diff_def Let_def split: if_splits)

section \<open>The column extractor\<close>

lemma extractColumn_other:
  assumes "persisted x \<longrightarrow> field (snd x) \<noteq> k"
  shows "obj_get (extractColumn x cols) k = obj_get cols k"
  using assms by (cases x) (auto simp: extractColumn_def persisted_def)

lemma fold_extractColumn_other:
  assumes "\<forall>x \<in> set xs. persisted x \<longrightarrow> field (snd x) \<noteq> k"
  shows "obj_get (fold extractColumn xs cols) k = obj_get cols k"
  using assms by (induction xs arbitrary: cols) (simp_all add: extractColumn_other)

lemma extractColumn_self:
  assumes "persisted (n, a)"
  shows "obj_get (extractColumn (n, a) cols) (field a) = Some (column_of a)"
  using assms by (simp add: extractColumn_def persisted_def)

lemma fold_extractColumn_self:
  assumes "distinct (map (\<lambda>x. field (snd x)) (filter persisted xs))" "(n, a) \<in> set xs" "persisted (n, a)"
  shows "obj_get (fold extractColumn xs cols) (field a) = Some (column_of a)"
  using assms
proof (induction xs arbitrary: cols)
  case Nil
  then show ?case by simp
next
  case (Cons x xs)
  show ?case
  proof (cases "(n, a) \<in> set xs")
    case True
    from Cons.prems(1) have "distinct (map (\<lambda>x. field (snd x)) (filter persisted xs))"
      by (simp split: if_splits)
    from Cons.IH [OF this True Cons.prems(3)] show ?thesis by simp
  next
    case False
    with Cons.prems(2) have x: "x = (n, a)" by simp
    from Cons.prems(1,3) x
    have "field a \<notin> (\<lambda>x. field (snd x)) ` {x \<in> set xs. persisted x}"
      by simp
    then have "\<forall>y \<in> set xs. persisted y \<longrightarrow> field (snd y) \<noteq> field a"
      by (metis (mono_tags, lifting) image_eqI mem_Collect_eq)
    from fold_extractColumn_other [OF this] extractColumn_self [OF Cons.prems(3)]
    show ?thesis by (simp add: x)
  qed
qed

section \<open>Matching and replacing\<close>

lemma up_to_last_quote_prefix:
  "\<exists>suffix. line = up_to_last_quote line @ suffix"
proof -
  have "rev line = takeWhile (\<lambda>c. c \<noteq> dquote) (rev line) @ dropWhile (\<lambda>c. c \<noteq> dquote) (rev line)"
    by simp
  then have "line = rev (dropWhile (\<lambda>c. c \<noteq> dquote) (rev line))
                    @ rev (takeWhile (\<lambda>c. c \<noteq> dquote) (rev line))"
    by (metis rev_append rev_rev_ident)
  then show ?thesis unfolding up_to_last_quote_def by blast
qed

lemma up_to_last_quote_last:
  assumes "up_to_last_quote line \<noteq> []"
  shows "last (up_to_last_quote line) = dquote"
proof -
  let ?d = "dropWhile (\<lambda>c. c \<noteq> dquote) (rev line)"
  from assms have "?d \<noteq> []" by (simp add: up_to_last_quote_def)
  then have "hd ?d = dquote" using hd_dropWhile [of "\<lambda>c. c \<noteq> dquote" "rev line"] by simp
  with \<open>?d \<noteq> []\<close> show ?thesis
    by (simp add: up_to_last_quote_def last_rev)
qed

lemma match_here_shape:
  assumes "match_here s = Some (g, rest)"
  shows "\<exists>ws body. s = type_key @ ws @ g @ rest \<and> ws \<noteq> [] \<and> list_all is_space ws
           \<and> g = type_tag @ body @ [dquote] \<and> body \<noteq> []
           \<and> list_all (\<lambda>c. \<not> is_line_terminator c) body"
proof -
  let ?r1 = "drop (length type_key) s"
  let ?ws = "takeWhile is_space ?r1"
  let ?r2 = "dropWhile is_space ?r1"
  let ?r3 = "drop (length type_tag) ?r2"
  let ?line = "takeWhile (\<lambda>c. \<not> is_line_terminator c) ?r3"
  let ?p = "up_to_last_quote ?line"
  from assms have k: "prefix type_key s" and w: "?ws \<noteq> []" and t: "prefix type_tag ?r2"
    and l: "length ?p \<ge> 2" and g: "g = type_tag @ ?p" and r: "rest = drop (length ?p) ?r3"
    by (auto simp: match_here_def Let_def split: if_splits)
  from k have s1: "s = type_key @ ?r1" by (metis append_eq_conv_conj prefix_def)
  have s2: "?r1 = ?ws @ ?r2" by simp
  from t have s3: "?r2 = type_tag @ ?r3" by (metis append_eq_conv_conj prefix_def)
  obtain suffix where sf: "?line = ?p @ suffix" using up_to_last_quote_prefix by blast
  have "?r3 = ?line @ dropWhile (\<lambda>c. \<not> is_line_terminator c) ?r3" by simp
  then have "?r3 = ?p @ (suffix @ dropWhile (\<lambda>c. \<not> is_line_terminator c) ?r3)"
    using sf by (metis append.assoc)
  then have s4: "?r3 = ?p @ rest" unfolding r by (metis append_eq_conv_conj)
  from l have pn: "?p \<noteq> []" by auto
  then have "?p = butlast ?p @ [dquote]"
    using up_to_last_quote_last [OF pn] by (metis append_butlast_last_id)
  moreover have "butlast ?p \<noteq> []"
    using l by (cases ?p rule: rev_cases) auto
  moreover have "list_all (\<lambda>c. \<not> is_line_terminator c) (butlast ?p)"
  proof -
    have "set (butlast ?p) \<subseteq> set ?p" by (auto dest: in_set_butlastD)
    also have "\<dots> \<subseteq> set ?line" by (subst (2) sf) simp
    finally have "set (butlast ?p) \<subseteq> set ?line" .
    moreover have "\<forall>c \<in> set ?line. \<not> is_line_terminator c"
      by (auto dest: set_takeWhileD)
    ultimately show ?thesis by (auto simp: list_all_iff)
  qed
  moreover have "list_all is_space ?ws"
    by (auto simp: list_all_iff dest: set_takeWhileD)
  moreover have "s = type_key @ ?ws @ g @ rest"
    using s1 s2 s3 s4 g by (metis append.assoc)
  ultimately show ?thesis using w g by metis
qed

lemma matchAll_shape:
  "t \<in> set (matchAll s) \<Longrightarrow>
     \<exists>pre ws body post. s = pre @ type_key @ ws @ t @ post \<and> ws \<noteq> [] \<and> list_all is_space ws
        \<and> t = type_tag @ body @ [dquote] \<and> body \<noteq> []
        \<and> list_all (\<lambda>c. \<not> is_line_terminator c) body"
proof (induction s rule: matchAll.induct)
  case (1 s)
  show ?case
  proof (cases "s = []")
    case True
    with "1.prems" show ?thesis by simp
  next
    case False
    show ?thesis
    proof (cases "match_here s")
      case None
      with False "1.prems" have "t \<in> set (matchAll (tl s))" by simp
      from "1.IH"(1) [OF False None this]
      obtain pre ws body post where "tl s = pre @ type_key @ ws @ t @ post" "ws \<noteq> []"
        "list_all is_space ws" "t = type_tag @ body @ [dquote]" "body \<noteq> []"
        "list_all (\<lambda>c. \<not> is_line_terminator c) body" by blast
      moreover from this(1) False have "s = (hd s # pre) @ type_key @ ws @ t @ post"
        by (metis append_Cons list.collapse)
      ultimately show ?thesis by blast
    next
      case (Some gr)
      obtain g rest where gr: "gr = (g, rest)" by (cases gr)
      from match_here_shape [of s g rest] Some gr
      obtain ws body where sh: "s = type_key @ ws @ g @ rest" "ws \<noteq> []" "list_all is_space ws"
        "g = type_tag @ body @ [dquote]" "body \<noteq> []"
        "list_all (\<lambda>c. \<not> is_line_terminator c) body" by blast
      from False Some gr "1.prems" consider "t = g" | "t \<in> set (matchAll rest)" by auto
      then show ?thesis
      proof cases
        case 1
        with sh have "s = [] @ type_key @ ws @ t @ rest" by simp
        with sh 1 show ?thesis by blast
      next
        case 2
        from "1.IH"(2) [OF False Some [unfolded gr] refl 2]
        obtain pre ws' body' post where r: "rest = pre @ type_key @ ws' @ t @ post" "ws' \<noteq> []"
          "list_all is_space ws'" "t = type_tag @ body' @ [dquote]" "body' \<noteq> []"
          "list_all (\<lambda>c. \<not> is_line_terminator c) body'" by blast
        from sh(1) r(1) have "s = (type_key @ ws @ g @ pre) @ type_key @ ws' @ t @ post" by simp
        with r show ?thesis by blast
      qed
    qed
  qed
qed

declare replaceAll.simps [simp del]
declare matchAll.simps [simp del]

lemma filter_interleave:
  "filter P rep = [] \<Longrightarrow> filter P (concat (map (\<lambda>c. c # rep) s)) = filter P s"
  by (induction s) simp_all

lemma filter_replaceAll:
  "filter P rep = filter P pat \<Longrightarrow> filter P (replaceAll pat rep s) = filter P s"
proof (induction pat rep s rule: replaceAll.induct)
  case (1 pat rep s)
  show ?case
  proof (cases "pat = []")
    case True
    with "1.prems" have "filter P rep = []" by simp
    with True show ?thesis
      by (subst replaceAll.simps) (simp add: filter_interleave)
  next
    case False
    show ?thesis
    proof (cases "s = []")
      case True
      with False show ?thesis by (subst replaceAll.simps) simp
    next
      case ne: False
      show ?thesis
      proof (cases "prefix pat s")
        case True
        then obtain r where s: "s = pat @ r" by (auto simp: prefix_def)
        then have r: "drop (length pat) s = r" by simp
        have "filter P (replaceAll pat rep s)
                = filter P rep @ filter P (replaceAll pat rep (drop (length pat) s))"
          using False ne True by (subst replaceAll.simps) simp
        also have "\<dots> = filter P pat @ filter P (drop (length pat) s)"
          using "1.IH"(1) [OF False ne True "1.prems"] "1.prems" by simp
        also have "\<dots> = filter P s" unfolding r by (simp add: s)
        finally show ?thesis .
      next
        case np: False
        have "filter P (replaceAll pat rep s) = filter P (hd s # replaceAll pat rep (tl s))"
          using False ne np by (subst replaceAll.simps) simp
        also have "\<dots> = filter P (hd s # tl s)"
          using "1.IH"(2) [OF False ne np "1.prems"] by simp
        finally show ?thesis using ne by simp
      qed
    qed
  qed
qed

lemma replaceAll_no_occurrence:
  "pat \<noteq> [] \<Longrightarrow> \<not> sublist pat s \<Longrightarrow> replaceAll pat rep s = s"
proof (induction s)
  case Nil
  then show ?case by (subst replaceAll.simps) simp
next
  case (Cons x xs)
  from Cons.prems(2) have np: "\<not> prefix pat (x # xs)"
    by (meson prefix_imp_sublist)
  from Cons.prems(2) have "\<not> sublist pat xs"
    by (meson sublist_Cons_right)
  with Cons.IH Cons.prems(1) have "replaceAll pat rep xs = xs" by simp
  with Cons.prems(1) np show ?case by (subst replaceAll.simps) simp
qed

lemma replaceAll_first_occurrence:
  "pat \<noteq> [] \<Longrightarrow> \<not> sublist pat (pre @ butlast pat) \<Longrightarrow>
     replaceAll pat rep (pre @ pat @ post) = pre @ rep @ replaceAll pat rep post"
proof (induction pre)
  case Nil
  then show ?case by (subst replaceAll.simps) simp
next
  case (Cons x pre)
  have np: "\<not> prefix pat (x # pre @ pat @ post)"
  proof
    assume "prefix pat (x # pre @ pat @ post)"
    moreover have "pat @ post = butlast pat @ last pat # post"
      using Cons.prems(1) by (metis append.assoc append_Cons append_Nil append_butlast_last_id)
    ultimately have "prefix pat (((x # pre) @ butlast pat) @ (last pat # post))"
      by simp
    moreover have "length pat \<le> length ((x # pre) @ butlast pat)" by simp
    ultimately have "prefix pat ((x # pre) @ butlast pat)"
      by (metis prefix_length_prefix prefixI)
    with Cons.prems(2) show False by (meson prefix_imp_sublist)
  qed
  from Cons.prems(2) have "\<not> sublist pat (pre @ butlast pat)"
    by (metis append_Cons sublist_Cons_right)
  with Cons.IH Cons.prems(1)
  have "replaceAll pat rep (pre @ pat @ post) = pre @ rep @ replaceAll pat rep post" by simp
  with np Cons.prems(1) show ?case by (subst replaceAll.simps) simp
qed

lemma replaceAll_char: "replaceAll [c] [] s = filter (\<lambda>x. x \<noteq> c) s"
proof (induction s)
  case Nil
  show ?case by (subst replaceAll.simps) simp
next
  case (Cons x xs)
  then show ?case by (subst replaceAll.simps) simp
qed

lemma filter_fold_replaceAll:
  "filter (\<lambda>x. x \<noteq> q) (fold (\<lambda>t c. replaceAll t (replaceAll [q] [] t) c) ts s)
     = filter (\<lambda>x. x \<noteq> q) s"
proof (induction ts arbitrary: s)
  case Nil
  show ?case by simp
next
  case (Cons t ts)
  have "filter (\<lambda>x. x \<noteq> q) (replaceAll t (replaceAll [q] [] t) s) = filter (\<lambda>x. x \<noteq> q) s"
    by (rule filter_replaceAll) (simp add: replaceAll_char)
  with Cons.IH [of "replaceAll t (replaceAll [q] [] t) s"] show ?case by simp
qed


section \<open>The examples\<close>

lemma users_model_columns:
  "getModelColumns users_model = [(''id'', baseColumns_id), (''mail'', column_of mail_attribute)]"
  by (simp add: getModelColumns_def users_model_def extractColumn_def baseColumns_def
      obj_keys_def obj_get_def obj_set_def id_attribute_def mail_attribute_def)

lemma users_model_table: "tableName (options users_model) = ''users''"
  by (simp add: users_model_def)

lemma mail_hint: "prevColumnName (column_of mail_attribute) = Some ''email''"
  by (simp add: column_of_def mail_attribute_def)

lemma email_hint: "prevColumnName (column_of email_attribute) = None"
  by (simp add: column_of_def email_attribute_def)

lemma mail_not_id: "column_of mail_attribute \<noteq> baseColumns_id"
  by (simp add: column_of_def mail_attribute_def baseColumns_id_def)

lemma two_dates_tokens: "formattedTypes two_dates = [dquote # ''DataTypes.DATE'' @ [dquote]]"
  by code_simp

lemma two_dates_formatted:
  "formatMigrationContent two_dates =
     ''{'' @ [CHR 0x0A] @
     ''  '' @ [dquote] @ ''type'' @ [dquote] @ '': DataTypes.DATE,'' @ [CHR 0x0A] @
     ''  '' @ [dquote] @ ''allowNull'' @ [dquote] @ '': false'' @ [CHR 0x0A] @
     ''}, {'' @ [CHR 0x0A] @
     ''  '' @ [dquote] @ ''type'' @ [dquote] @ '': DataTypes.DATE'' @ [CHR 0x0A] @
     ''}''"
  by code_simp

lemmas eval_defs =
  diff_def classify_def classify_simple_def forward_pass_def forward_def backward_def
  backward_simple_def equal_def equal_entry_def obj_get_def obj_set_def obj_delete_def
  obj_modify_def obj_keys_def truthy_def js_key_def table_of_def add_migration_def
  change_migration_def rename_migration_def remove_migration_def Let_def

section \<open>A hint that does not resolve\<close>

text \<open>
  Claim C1 says that a current column whose \<^verbatim>\<open>prevColumnName\<close> does not resolve to a prior
  entry, or names the column itself, is classified as new and inserted into the snapshot.
  The code does not do so: the branch taken for a column with a truthy hint has no
  alternative for a hint that fails, so the column reaches no bucket and the table is left
  as it was. Here the snapshot of \<^verbatim>\<open>users\<close> holds \<^verbatim>\<open>id\<close> only and the model adds \<^verbatim>\<open>mail\<close>
  with the previous name \<^verbatim>\<open>email\<close>, and then with its own name as the previous name.
\<close>

theorem unresolved_hint_is_dropped:
  "classify [(''id'', baseColumns_id), (''mail'', column_of mail_attribute)]
       [(''id'', baseColumns_id)]
     = ([(''id'', (baseColumns_id, None))], \<lparr>new = [], change = [], rename = [], remove = []\<rparr>)
   \<and> classify [(''id'', baseColumns_id),
                (''mail'', (column_of mail_attribute)\<lparr>prevColumnName := Some ''mail''\<rparr>)]
       [(''id'', baseColumns_id)]
     = ([(''id'', (baseColumns_id, None))], \<lparr>new = [], change = [], rename = [], remove = []\<rparr>)
   \<and> getRawMigrations users_model [(''users'', [(''id'', baseColumns_id)])]
     = (Inr [], [(''users'', [(''id'', baseColumns_id)])])"
  by (simp add: getRawMigrations_def users_model_columns users_model_table eval_defs mail_hint
      mail_not_id [symmetric])

section \<open>The hint in the snapshot\<close>




section \<open>A second run\<close>

text \<open>
  Claim C3 says that a second diff with no change of the model throws \<^verbatim>\<open>'no change'\<close>.
  With the column of claim C1, which the first run drops, the snapshot after the first run
  still differs from the current columns, and the second run does what the first did: it
  returns no migration and does not throw.
\<close>

theorem second_run_without_no_change:
  "getRawMigrations users_model [(''users'', [(''id'', baseColumns_id)])]
     = (Inr [], [(''users'', [(''id'', baseColumns_id)])])
   \<and> \<not> equal [(''id'', baseColumns_id)] (getModelColumns users_model)
   \<and> fst (getRawMigrations users_model
            (snd (getRawMigrations users_model [(''users'', [(''id'', baseColumns_id)])])))
     = Inr []"
proof -
  have 1: "getRawMigrations users_model [(''users'', [(''id'', baseColumns_id)])]
     = (Inr [], [(''users'', [(''id'', baseColumns_id)])])"
    by (simp add: getRawMigrations_def users_model_columns users_model_table eval_defs mail_hint
        mail_not_id [symmetric])
  have 2: "\<not> equal [(''id'', baseColumns_id)] (getModelColumns users_model)"
    by (simp add: users_model_columns equal_def)
  from 1 2 show ?thesis by simp
qed

section \<open>No structural change\<close>

text \<open>
  Claim C4. The diff throws \<^verbatim>\<open>'no change'\<close> exactly when the snapshot has an entry for the
  table and that entry is deep-equal to the current columns. A thrown error carries no
  descriptor, and the snapshot is then the one the diff received. Deep-equal, for two tables
  with distinct keys each, is: the same column names, and under each name two definitions
  that are deep-equal, which for a default value means equal by \<^verbatim>\<open>==\<close>.
\<close>

theorem no_change_iff:
  "(fst (diff t modelColumns metaData) = Inl NoChange) =
     (\<exists>prior. obj_get metaData t = Some prior \<and> equal prior modelColumns)
   \<and> (fst (diff t modelColumns metaData) = Inl NoChange \<longrightarrow>
        snd (diff t modelColumns metaData) = metaData)
   \<and> (distinct (obj_keys prior) \<and> distinct (obj_keys modelColumns) \<longrightarrow>
        equal prior modelColumns =
          (set (obj_keys prior) = set (obj_keys modelColumns)
           \<and> (\<forall>n d c. obj_get prior n = Some d \<and> obj_get modelColumns n = Some c \<longrightarrow>
                  equal_column d c)))"
proof (intro conjI impI)
  show "(fst (diff t modelColumns metaData) = Inl NoChange) =
     (\<exists>prior. obj_get metaData t = Some prior \<and> equal prior modelColumns)"
    by (auto simp: diff_def Let_def split: option.splits)
  show "snd (diff t modelColumns metaData) = metaData"
    if "fst (diff t modelColumns metaData) = Inl NoChange"
    using that by (auto simp: diff_def Let_def split: option.splits if_splits)
  show "equal prior modelColumns =
          (set (obj_keys prior) = set (obj_keys modelColumns)
           \<and> (\<forall>n d c. obj_get prior n = Some d \<and> obj_get modelColumns n = Some c \<longrightarrow>
                  equal_column d c))"
    if "distinct (obj_keys prior) \<and> distinct (obj_keys modelColumns)"
    using that equal_iff [of prior modelColumns] by blast
qed

text \<open>
  The witness is a table whose column \<^verbatim>\<open>n\<close> has the default value 1 in the snapshot and
  the string \<^verbatim>\<open>'1'\<close> in the model: the two are equal by \<^verbatim>\<open>==\<close>, and the diff throws.
\<close>

theorem no_change_iff_witness:
  "fst (diff ''users'' [(''n'', baseColumns_deletedAt\<lparr>defaultValue := Some (JStr ''1'')\<rparr>)]
          [(''users'', [(''n'', baseColumns_deletedAt\<lparr>defaultValue := Some (JNum 1)\<rparr>)])])
     = Inl NoChange
   \<and> snd (diff ''users'' [(''n'', baseColumns_deletedAt\<lparr>defaultValue := Some (JStr ''1'')\<rparr>)]
          [(''users'', [(''n'', baseColumns_deletedAt\<lparr>defaultValue := Some (JNum 1)\<rparr>)])])
     = [(''users'', [(''n'', baseColumns_deletedAt\<lparr>defaultValue := Some (JNum 1)\<rparr>)])]
   \<and> distinct (obj_keys [(''n'', baseColumns_deletedAt\<lparr>defaultValue := Some (JNum 1)\<rparr>)])
   \<and> distinct (obj_keys [(''n'', baseColumns_deletedAt\<lparr>defaultValue := Some (JStr ''1'')\<rparr>)])
   \<and> equal_column (baseColumns_deletedAt\<lparr>defaultValue := Some (JNum 1)\<rparr>)
        (baseColumns_deletedAt\<lparr>defaultValue := Some (JStr ''1'')\<rparr>)"
proof -
  let ?prior = "[(''n'', baseColumns_deletedAt\<lparr>defaultValue := Some (JNum 1)\<rparr>)]"
  let ?cur = "[(''n'', baseColumns_deletedAt\<lparr>defaultValue := Some (JStr ''1'')\<rparr>)]"
  have l: "loose_eq (JNum 1) (JStr ''1'')" by code_simp
  have c: "equal_column (baseColumns_deletedAt\<lparr>defaultValue := Some (JNum 1)\<rparr>)
        (baseColumns_deletedAt\<lparr>defaultValue := Some (JStr ''1'')\<rparr>)"
    using l by (simp add: equal_column_def)
  have k: "distinct (obj_keys ?prior) \<and> distinct (obj_keys ?cur)"
    by (simp add: obj_keys_def)
  have g: "obj_get [(''users'', ?prior)] ''users'' = Some ?prior" by (simp add: obj_get_def)
  note T = no_change_iff [of "''users''" ?cur "[(''users'', ?prior)]" ?prior]
  have e: "equal ?prior ?cur"
    using T [THEN conjunct2, THEN conjunct2, rule_format, OF k] c
    by (simp add: obj_keys_def obj_get_def)
  with g have "\<exists>prior. obj_get [(''users'', ?prior)] ''users'' = Some prior \<and> equal prior ?cur"
    by blast
  with T have "fst (diff ''users'' ?cur [(''users'', ?prior)]) = Inl NoChange"
    and "snd (diff ''users'' ?cur [(''users'', ?prior)]) = [(''users'', ?prior)]"
    by blast+
  with k c show ?thesis by simp
qed

section \<open>A table without snapshot entry\<close>

text \<open>
  Claim C5. For a table with no entry in the snapshot the diff returns exactly one
  descriptor, labelled \<^verbatim>\<open>initial\<close>; its up-operation is one \<^verbatim>\<open>createTable\<close> with the current
  columns, its down-operation one \<^verbatim>\<open>dropTable\<close> of the table; and the snapshot entry of the
  table becomes the current columns.
\<close>

theorem initial_descriptor:
  assumes "obj_get metaData t = None"
  shows "fst (diff t modelColumns metaData) =
           Inr [\<lparr>label = ''initial'', up = [createTable t modelColumns], down = [dropTable t]\<rparr>]
         \<and> obj_get (snd (diff t modelColumns metaData)) t = Some modelColumns"
  using assms by (simp add: diff_def)

theorem initial_descriptor_witness:
  "obj_get [(''posts'', [])] ''users'' = None
   \<and> fst (diff ''users'' [(''id'', baseColumns_id)] [(''posts'', [])]) =
       Inr [\<lparr>label = ''initial'', up = [createTable ''users'' [(''id'', baseColumns_id)]],
             down = [dropTable ''users'']\<rparr>]
   \<and> obj_get (snd (diff ''users'' [(''id'', baseColumns_id)] [(''posts'', [])])) ''users''
       = Some [(''id'', baseColumns_id)]"
proof -
  have h: "obj_get [(''posts'', [])] ''users'' = None"
    by (simp add: obj_get_def)
  from h initial_descriptor [OF h, of "[(''id'', baseColumns_id)]"]
  show ?thesis by simp
qed

section \<open>Rename, not add and remove\<close>

text \<open>
  Claim C6. For the snapshot \<^verbatim>\<open>{A: def1}\<close> and the current columns
  \<^verbatim>\<open>{B: def1 with prevColumnName = A}\<close>, with \<open>A\<close> a column name other than \<open>B\<close> (a name is
  not the empty string, which JavaScript takes for no hint), the diff classifies \<open>B\<close> as a
  rename from \<open>A\<close> and nothing else: the new, change and remove buckets are empty, the one
  descriptor renames \<open>A\<close> to \<open>B\<close> and back. In every run, the previous name of a renamed
  column is not in the remove bucket.
\<close>

theorem rename_disambiguation:
  "(A \<noteq> B \<and> A \<noteq> [] \<longrightarrow>
      classify [(B, def1\<lparr>prevColumnName := Some A\<rparr>)] [(A, def1)] =
        ([(B, (def1\<lparr>prevColumnName := Some A\<rparr>, None))],
         \<lparr>new = [], change = [], rename = [(B, def1\<lparr>prevColumnName := Some A\<rparr>)], remove = []\<rparr>)
      \<and> diff t [(B, def1\<lparr>prevColumnName := Some A\<rparr>)] [(t, [(A, def1)])] =
        (Inr [\<lparr>label = ''rename-column-to'',
               up = [renameColumn t A B (Some (def1\<lparr>prevColumnName := Some A\<rparr>))],
               down = [renameColumn t B A (Some def1)]\<rparr>],
         [(t, [(B, def1\<lparr>prevColumnName := Some A\<rparr>)])]))
   \<and> (\<forall>n c. (n, c) \<in> set (rename (snd (classify modelColumns prior))) \<longrightarrow>
         js_key (prevColumnName c) \<notin> set (remove (snd (classify modelColumns prior))))"
proof (intro conjI impI allI)
  assume h: "A \<noteq> B \<and> A \<noteq> []"
  then show c: "classify [(B, def1\<lparr>prevColumnName := Some A\<rparr>)] [(A, def1)] =
        ([(B, (def1\<lparr>prevColumnName := Some A\<rparr>, None))],
         \<lparr>new = [], change = [], rename = [(B, def1\<lparr>prevColumnName := Some A\<rparr>)], remove = []\<rparr>)"
    by (auto simp: classify_def forward_pass_def forward_def backward_def obj_get_def obj_set_def
        obj_delete_def obj_modify_def truthy_def js_key_def)
  have ne: "\<not> equal [(A, def1)] [(B, def1\<lparr>prevColumnName := Some A\<rparr>)]"
    using h by (simp add: equal_def obj_get_def)
  show "diff t [(B, def1\<lparr>prevColumnName := Some A\<rparr>)] [(t, [(A, def1)])] =
        (Inr [\<lparr>label = ''rename-column-to'',
               up = [renameColumn t A B (Some (def1\<lparr>prevColumnName := Some A\<rparr>))],
               down = [renameColumn t B A (Some def1)]\<rparr>],
         [(t, [(B, def1\<lparr>prevColumnName := Some A\<rparr>)])])"
    using ne
    by (simp add: diff_def Let_def c add_migration_def change_migration_def rename_migration_def
        remove_migration_def table_of_def obj_keys_def js_key_def obj_get_def obj_set_def)
next
  fix n c
  assume r: "(n, c) \<in> set (rename (snd (classify modelColumns prior)))"
  show "js_key (prevColumnName c) \<notin> set (remove (snd (classify modelColumns prior)))"
  proof
    assume "js_key (prevColumnName c) \<in> set (remove (snd (classify modelColumns prior)))"
    from classify_remove(1,2) [OF this]
    have "obj_get (fst (forward_pass modelColumns prior)) (js_key (prevColumnName c)) \<noteq> None"
      and "obj_get modelColumns (js_key (prevColumnName c)) = None" .
    moreover from r have "(n, c) \<in> set (rename (snd (forward_pass modelColumns prior)))"
      by (simp add: classify_buckets)
    ultimately show False
      using forward_pass_rename_ok [of modelColumns prior] unfolding rename_ok_def by metis
  qed
qed

theorem rename_disambiguation_witness:
  "''email'' \<noteq> ''mail'' \<and> ''email'' \<noteq> []
   \<and> classify [(''mail'', (column_of email_attribute)\<lparr>prevColumnName := Some ''email''\<rparr>)]
        [(''email'', column_of email_attribute)]
      = ([(''mail'', ((column_of email_attribute)\<lparr>prevColumnName := Some ''email''\<rparr>, None))],
         \<lparr>new = [], change = [],
          rename = [(''mail'', (column_of email_attribute)\<lparr>prevColumnName := Some ''email''\<rparr>)],
          remove = []\<rparr>)
   \<and> (''mail'', column_of mail_attribute)
        \<in> set (rename (snd (classify [(''mail'', column_of mail_attribute)]
              [(''email'', column_of email_attribute), (''id'', baseColumns_id)])))
   \<and> remove (snd (classify [(''mail'', column_of mail_attribute)]
              [(''email'', column_of email_attribute), (''id'', baseColumns_id)])) = [''id'']
   \<and> ''email'' \<notin> set (remove (snd (classify [(''mail'', column_of mail_attribute)]
              [(''email'', column_of email_attribute), (''id'', baseColumns_id)])))"
proof -
  have 1: "''email'' \<noteq> ''mail'' \<and> ''email'' \<noteq> []" by simp
  have 2: "(''mail'', column_of mail_attribute)
        \<in> set (rename (snd (classify [(''mail'', column_of mail_attribute)]
              [(''email'', column_of email_attribute), (''id'', baseColumns_id)])))"
    by (simp add: eval_defs mail_hint)
  have 3: "remove (snd (classify [(''mail'', column_of mail_attribute)]
              [(''email'', column_of email_attribute), (''id'', baseColumns_id)])) = [''id'']"
    by (simp add: eval_defs mail_hint)
  from rename_disambiguation [of "''email''" "''mail''" "column_of email_attribute" "''users''"
      "[(''mail'', column_of mail_attribute)]"
      "[(''email'', column_of email_attribute), (''id'', baseColumns_id)]"] 1 2 3
  show ?thesis by (simp add: mail_hint js_key_def)
qed

section \<open>The definitions of the down-operations\<close>

text \<open>
  Claim C7 says that for every column classified as change, rename or remove the definition
  in the down-operation is the column's definition before the run, taken from the frozen
  copy of the snapshot. The code reads the definition for a rename from the frozen copy
  under the previous name, but it resolves the hint against the table as the loop has
  changed it so far. A column added earlier in the same run can so become the previous
  name of a rename; the frozen copy has nothing under that name, and the down-operation is
  rendered with \<^verbatim>\<open>undefined\<close> in place of a definition. Here the snapshot holds \<^verbatim>\<open>id\<close>, and
  the model adds \<^verbatim>\<open>email\<close> and \<^verbatim>\<open>mail\<close>, the latter with the previous name \<^verbatim>\<open>email\<close>.
\<close>

theorem rename_of_added_column_has_no_definition:
  "fst (diff ''users''
          [(''id'', baseColumns_id), (''email'', column_of email_attribute),
           (''mail'', column_of mail_attribute)]
          [(''users'', [(''id'', baseColumns_id)])])
     = Inr [\<lparr>label = ''add-column-to'',
             up = [addColumn ''users'' ''email'' (Some (column_of email_attribute))],
             down = [removeColumn ''users'' ''email'']\<rparr>,
            \<lparr>label = ''rename-column-to'',
             up = [renameColumn ''users'' ''email'' ''mail'' (Some (column_of mail_attribute))],
             down = [renameColumn ''users'' ''mail'' ''email'' None]\<rparr>]"
  by (simp add: eval_defs mail_hint email_hint)

section \<open>The next-name conjunct of the removal check\<close>

text \<open>
  The second loop with and without the conjunct on \<^verbatim>\<open>nextColumnName\<close> does the same for
  current columns none of which is named \<^verbatim>\<open>undefined\<close>.
\<close>

lemma next_name_conjunct_without_effect:
  assumes "obj_get modelColumns ''undefined'' = None"
  shows "classify_simple modelColumns prior = classify modelColumns prior"
proof -
  have "fold (backward modelColumns) (fst (forward_pass modelColumns prior)) (forward_pass modelColumns prior)
      = fold (backward_simple modelColumns) (fst (forward_pass modelColumns prior)) (forward_pass modelColumns prior)"
  proof (rule fold_cong)
    fix x assume "x \<in> set (fst (forward_pass modelColumns prior))"
    with forward_pass_tags_own [of modelColumns prior]
    have "snd (snd x) = None \<or> snd (snd x) = Some (fst x)"
      unfolding tags_own_def by (cases x) auto
    with backward_simple_eq [OF assms, of "snd x" "fst x"]
    show "backward modelColumns x = backward_simple modelColumns x" by auto
  qed simp_all
  then show ?thesis
    by (simp add: classify_forward_pass classify_simple_def forward_pass_def Let_def)
qed

text \<open>
  Claim C8 says that the conjunct on \<^verbatim>\<open>nextColumnName\<close> in the removal check is redundant
  in every run: a prior entry is removed exactly when its own name is absent from the
  current columns. An entry of the snapshot that the first loop did not visit has no
  \<^verbatim>\<open>nextColumnName\<close>, so the check reads \<^verbatim>\<open>modelColumns[undefined]\<close>, the property named
  \<^verbatim>\<open>undefined\<close>. When the model has a column of that name, the code keeps every such
  entry: here \<^verbatim>\<open>id\<close>, which the model no longer declares, stays in the snapshot and no
  migration removes it, while the check on the own name alone removes it.
\<close>

theorem next_name_check_matters:
  "classify [(''undefined'', baseColumns_deletedAt)] [(''id'', baseColumns_id)]
     = ([(''id'', (baseColumns_id, None)), (''undefined'', (baseColumns_deletedAt, None))],
        \<lparr>new = [(''undefined'', baseColumns_deletedAt)], change = [], rename = [], remove = []\<rparr>)
   \<and> classify_simple [(''undefined'', baseColumns_deletedAt)] [(''id'', baseColumns_id)]
     = ([(''undefined'', (baseColumns_deletedAt, None))],
        \<lparr>new = [(''undefined'', baseColumns_deletedAt)], change = [], rename = [],
         remove = [''id'']\<rparr>)"
  by (simp add: eval_defs baseColumns_deletedAt_def)

section \<open>Extracted columns\<close>

text \<open>
  Claim C9. For every declared attribute whose name is not reserved and whose type is not
  \<^verbatim>\<open>VIRTUAL\<close>, the loop writes a column under the attribute's physical name \<^verbatim>\<open>field\<close>, and
  the extracted columns hold it there; the column's \<^verbatim>\<open>allowNull\<close> is \<^verbatim>\<open>false\<close> exactly when
  the attribute's is \<^verbatim>\<open>false\<close>, and for any other declaration the column has no
  \<^verbatim>\<open>allowNull\<close> at all. A physical name identifies a column: the persisted attributes have
  pairwise distinct physical names, and the name is not one of the implicit columns that
  the table options write afterwards.
\<close>

theorem extracted_column:
  assumes "(modelColumnName, a) \<in> set (attributes m)"
    and "modelColumnName \<notin> set (obj_keys baseColumns)"
    and "attribute.type a \<noteq> ''VIRTUAL''"
    and "distinct (map (\<lambda>x. field (snd x)) (filter persisted (attributes m)))"
    and "\<not> (timestamps (options m) \<and> field a \<in> {''createdAt'', ''updatedAt''})"
    and "\<not> (paranoid (options m) \<and> field a = ''deletedAt'')"
  shows "obj_get (extractColumn (modelColumnName, a) cols) (field a) = Some (column_of a)
         \<and> (\<exists>c. obj_get (getModelColumns m) (field a) = Some c
               \<and> (column.allowNull c = Some False \<longleftrightarrow> attribute.allowNull a = Some False)
               \<and> (attribute.allowNull a \<noteq> Some False \<longrightarrow> column.allowNull c = None)
               \<and> c = column_of a)"
proof -
  have p: "persisted (modelColumnName, a)" using assms(2,3) by (simp add: persisted_def)
  have "obj_get (getModelColumns m) (field a) = Some (column_of a)"
    using fold_extractColumn_self [OF assms(4,1) p] assms(5,6)
    by (auto simp: getModelColumns_def Let_def)
  with extractColumn_self [OF p, of cols] show ?thesis by (simp add: column_of_def)
qed

theorem extracted_column_witness:
  "(''mail'', mail_attribute) \<in> set (attributes users_model)
   \<and> ''mail'' \<notin> set (obj_keys baseColumns)
   \<and> attribute.type mail_attribute \<noteq> ''VIRTUAL''
   \<and> distinct (map (\<lambda>x. field (snd x)) (filter persisted (attributes users_model)))
   \<and> obj_get (getModelColumns users_model) (field mail_attribute) = Some (column_of mail_attribute)
   \<and> column.allowNull (column_of mail_attribute) = Some False"
proof -
  have 1: "(''mail'', mail_attribute) \<in> set (attributes users_model)"
    by (simp add: users_model_def)
  have 2: "''mail'' \<notin> set (obj_keys baseColumns)"
    by (simp add: baseColumns_def obj_keys_def)
  have 3: "attribute.type mail_attribute \<noteq> ''VIRTUAL''"
    by (simp add: mail_attribute_def)
  have 4: "distinct (map (\<lambda>x. field (snd x)) (filter persisted (attributes users_model)))"
    by (simp add: users_model_def persisted_def baseColumns_def obj_keys_def)
  have 5: "\<not> (timestamps (options users_model) \<and> field mail_attribute \<in> {''createdAt'', ''updatedAt''})"
    by (simp add: users_model_def)
  have 6: "\<not> (paranoid (options users_model) \<and> field mail_attribute = ''deletedAt'')"
    by (simp add: users_model_def)
  have 7: "attribute.allowNull mail_attribute = Some False"
    by (simp add: mail_attribute_def)
  from extracted_column [OF 1 2 3 4 5 6] 1 2 3 4 7 show ?thesis by auto
qed

section \<open>Unquoting the type tokens\<close>



end
